theory Spec2Isabelle
  imports Main "HOL-Library.Word"
begin

section \<open>Message model\<close>

text \<open>
  The live page (\<^verbatim>\<open>src/app/live/page.tsx\<close>) keeps a transcript of protocol messages and
  derives a text bubble, a video bubble and an audio bubble from each of them.
\<close>

type_synonym msg_id = string

text \<open>
  Modelled from the spec: the type declarations of \<^verbatim>\<open>@/vendor/multimodal-live-types\<close> and
  of \<^verbatim>\<open>Part\<close> are imported by the page and are not part of it. A media chunk is
  \<^verbatim>\<open>{mimeType, data}\<close> with base64 text in \<^verbatim>\<open>data\<close>; a part carries an optional
  \<^verbatim>\<open>text\<close> and an optional inline media blob; the three message variants each carry a
  stable \<^verbatim>\<open>id\<close>.
\<close>

datatype GenerativeContentBlob =
  GenerativeContentBlob (mimeType: string) (data: string)

datatype Part =
  Part (part_text: "string option") (inlineData: "GenerativeContentBlob option")

datatype Content =
  Content (role: string) (parts: "Part list")

text \<open>
  The server content either has a \<^verbatim>\<open>modelTurn\<close> field holding parts, has that field set
  to \<^verbatim>\<open>null\<close>, or is one of the variants without the field.
\<close>

datatype ServerContent =
  ModelTurn (modelTurn_parts: "Part list") | ModelTurnNull | TurnComplete | Interrupted

datatype Message =
  RealtimeInputMessage (id_of: msg_id) (mediaChunks: "GenerativeContentBlob list")
| ClientContentMessage (id_of: msg_id) (turns: "Content list")
| ServerContentMessage (id_of: msg_id) (serverContent: ServerContent)

text \<open>\<^verbatim>\<open>MessageType\<close> adds \<^verbatim>\<open>null\<close>, which is \<open>None\<close> here.\<close>

type_synonym MessageType = "Message option"

text \<open>\<^verbatim>\<open>m?.id\<close>: \<^verbatim>\<open>undefined\<close> (here \<open>None\<close>) on a null message.\<close>

definition opt_id :: "MessageType \<Rightarrow> msg_id option" where
  "opt_id m = map_option id_of m"

subsection \<open>Classifiers\<close>

fun isClientMessage :: "MessageType \<Rightarrow> bool" where
  "isClientMessage (Some (ClientContentMessage _ _)) = True"
| "isClientMessage _ = False"

fun isRealtimeInputMessage :: "MessageType \<Rightarrow> bool" where
  "isRealtimeInputMessage (Some (RealtimeInputMessage _ _)) = True"
| "isRealtimeInputMessage _ = False"

fun isServerMessage :: "MessageType \<Rightarrow> bool" where
  "isServerMessage (Some (ServerContentMessage _ _)) = True"
| "isServerMessage _ = False"

fun hasModelTurn :: "ServerContent \<Rightarrow> bool" where
  "hasModelTurn (ModelTurn _) = True"
| "hasModelTurn _ = False"

section \<open>Transcript reconciliation\<close>

text \<open>
  The state updater handed to \<^verbatim>\<open>setMessages\<close> by the two effects of \<^verbatim>\<open>LivePage\<close>
  (one for \<^verbatim>\<open>currentBotMessage\<close>, one for \<^verbatim>\<open>currentUserMessage\<close>; the bodies are the
  same up to the variable name).
\<close>

definition setMessages_updater :: "Message \<Rightarrow> MessageType list \<Rightarrow> MessageType list" where
  "setMessages_updater cur messages =
     (if length (filter (\<lambda>m. opt_id m = opt_id (Some cur)) messages) > 0
      then map (\<lambda>m. if opt_id m = opt_id (Some cur) then Some cur else m) messages
      else messages @ [Some cur])"

text \<open>
  What one snapshot does to the transcript its updater is applied to: nothing when the
  snapshot is null (the effect tests it and requests no update), the updater otherwise.
\<close>

definition upsert :: "MessageType \<Rightarrow> MessageType list \<Rightarrow> MessageType list" where
  "upsert message messages =
     (case message of None \<Rightarrow> messages | Some cur \<Rightarrow> setMessages_updater cur messages)"

text \<open>
  Snapshots applied one after the other, in the order in which their updaters run (which
  for bot snapshots is not the order of observation, see below).
\<close>

definition upserts :: "MessageType list \<Rightarrow> MessageType list \<Rightarrow> MessageType list" where
  "upserts ms messages = foldl (\<lambda>t m. upsert m t) messages ms"

text \<open>The transcript entries that carry a given id.\<close>

definition entries_for :: "msg_id \<Rightarrow> MessageType list \<Rightarrow> MessageType list" where
  "entries_for i messages = filter (\<lambda>m. opt_id m = Some i) messages"

text \<open>All merges of two streams that keep the internal order of each.\<close>

fun interleavings :: "'a list \<Rightarrow> 'a list \<Rightarrow> 'a list list" where
  "interleavings [] ys = [ys]"
| "interleavings xs [] = [xs]"
| "interleavings (x # xs) (y # ys) =
     map ((#) x) (interleavings xs (y # ys)) @ map ((#) y) (interleavings (x # xs) ys)"

text \<open>The ids of the non-null snapshots of an input sequence, in input order.\<close>

fun input_ids :: "MessageType list \<Rightarrow> msg_id list" where
  "input_ids [] = []"
| "input_ids (None # ms) = input_ids ms"
| "input_ids (Some m # ms) = id_of m # input_ids ms"

text \<open>
  First-seen order of a list of ids: every id once, at the place of its first occurrence
  (\<open>remdups\<close> keeps the last occurrence, hence the two reversals).
\<close>

definition first_seen :: "'a list \<Rightarrow> 'a list" where
  "first_seen xs = rev (remdups (rev xs))"

subsection \<open>When the updaters run\<close>

text \<open>
  The two effects differ in when they hand the updater to \<^verbatim>\<open>setMessages\<close>. The effect for
  \<^verbatim>\<open>currentUserMessage\<close> does it at once. The effect for \<^verbatim>\<open>currentBotMessage\<close> wraps
  the call in \<^verbatim>\<open>requestAnimationFrame\<close>: the updater of a bot snapshot runs at the next
  animation frame, after the updaters of the user snapshots observed in between. The page
  state is the transcript together with the bot snapshots captured by callbacks that wait
  for a frame; callbacks of one frame run in the order of their requests.
\<close>

record page =
  transcript :: "MessageType list"
  frame_requests :: "Message list"

definition initial_page :: page where
  "initial_page = \<lparr>transcript = [], frame_requests = []\<rparr>"

datatype page_event = BotMessage MessageType | UserMessage MessageType | AnimationFrame

fun page_step :: "page \<Rightarrow> page_event \<Rightarrow> page" where
  "page_step p (BotMessage m) =
     (case m of
        None \<Rightarrow> p
      | Some cur \<Rightarrow> p\<lparr>frame_requests := frame_requests p @ [cur]\<rparr>)"
| "page_step p (UserMessage m) = p\<lparr>transcript := upsert m (transcript p)\<rparr>"
| "page_step p AnimationFrame =
     p\<lparr>transcript := foldl (\<lambda>t cur. setMessages_updater cur t) (transcript p) (frame_requests p),
       frame_requests := []\<rparr>"

definition page_run :: "page_event list \<Rightarrow> page \<Rightarrow> page" where
  "page_run evs p = foldl page_step p evs"

text \<open>The snapshots the page observes, in the order of observation.\<close>

fun observed :: "page_event list \<Rightarrow> MessageType list" where
  "observed [] = []"
| "observed (BotMessage m # evs) = m # observed evs"
| "observed (UserMessage m # evs) = m # observed evs"
| "observed (AnimationFrame # evs) = observed evs"

text \<open>
  The snapshots in the order in which their updaters run, given the bot snapshots that
  already wait for a frame.
\<close>

fun applied :: "Message list \<Rightarrow> page_event list \<Rightarrow> MessageType list" where
  "applied q [] = []"
| "applied q (BotMessage m # evs) =
     applied (q @ (case m of None \<Rightarrow> [] | Some cur \<Rightarrow> [cur])) evs"
| "applied q (UserMessage m # evs) = m # applied q evs"
| "applied q (AnimationFrame # evs) = map Some q @ applied [] evs"

section \<open>Derived views of a message\<close>

datatype placement = Start | End

subsection \<open>Text\<close>

text \<open>
  The bubble rendered by \<^verbatim>\<open>textComponent\<close>: its key, its side, the \<^verbatim>\<open>loading\<close> flag
  (absent, hence falsy, on the user's side) and the text handed to the renderer.
\<close>

datatype TextBubble =
  TextBubble (tb_key: msg_id) (tb_placement: placement) (tb_loading: bool) (tb_content: string)

text \<open>\<^verbatim>\<open>Array.prototype.join('')\<close>: an \<^verbatim>\<open>undefined\<close> element contributes nothing.\<close>

definition join_empty :: "string option list \<Rightarrow> string" where
  "join_empty xs = concat (map (\<lambda>x. case x of None \<Rightarrow> [] | Some s \<Rightarrow> s) xs)"

text \<open>\<^verbatim>\<open>p?.text ?? ''\<close>\<close>

definition text_or_empty :: "Part \<Rightarrow> string" where
  "text_or_empty p = (case part_text p of None \<Rightarrow> [] | Some s \<Rightarrow> s)"

text \<open>
  \<^verbatim>\<open>turns?.[0]?.parts.map((p) => p.text).join('')\<close>: \<^verbatim>\<open>undefined\<close> (here \<open>None\<close>) when
  there is no first turn.
\<close>

definition client_content :: "Content list \<Rightarrow> string option" where
  "client_content ts =
     (case ts of [] \<Rightarrow> None | c # _ \<Rightarrow> Some (join_empty (map part_text (parts c))))"

text \<open>Truthiness of a string that may be \<^verbatim>\<open>undefined\<close>.\<close>

definition truthy :: "string option \<Rightarrow> bool" where
  "truthy s = (case s of None \<Rightarrow> False | Some x \<Rightarrow> x \<noteq> [])"

definition textComponent :: "MessageType \<Rightarrow> TextBubble option" where
  "textComponent message =
     (if isClientMessage message then
        (let content = client_content (turns (the message))
         in if truthy content
            then Some (TextBubble (id_of (the message)) End False (the content))
            else None)
      else if isServerMessage message \<and> hasModelTurn (serverContent (the message)) then
        (let ps = modelTurn_parts (serverContent (the message));
             content = join_empty (map (\<lambda>p. Some (text_or_empty p)) ps);
             loading = (length ps = 0)
         in if loading \<or> content \<noteq> []
            then Some (TextBubble (id_of (the message)) Start loading content)
            else None)
      else None)"

text \<open>
  The result of text extraction in the words of the specification: no text at all, the
  distinct pending state, or a string.
\<close>

datatype extracted = Pending | Text string

definition extractText :: "MessageType \<Rightarrow> extracted option" where
  "extractText message =
     map_option (\<lambda>b. if tb_loading b then Pending else Text (tb_content b))
       (textComponent message)"

subsection \<open>Video frames\<close>

datatype VideoBubble =
  VideoBubble (vb_key: string) (vb_placement: placement) (vb_images: "string list")

text \<open>\<^verbatim>\<open>message?.id\<close> inside a template literal.\<close>

definition id_text :: "MessageType \<Rightarrow> string" where
  "id_text message = (case opt_id message of None \<Rightarrow> ''undefined'' | Some i \<Rightarrow> i)"

definition videoComponent :: "MessageType \<Rightarrow> VideoBubble option" where
  "videoComponent message =
     (let base64s =
        (if isRealtimeInputMessage message
         then map (\<lambda>c. ''data:image/jpeg;base64, '' @ data c)
                (filter (\<lambda>c. mimeType c = ''image/jpeg'' \<and> data c \<noteq> [])
                   (mediaChunks (the message)))
         else [])
      in if length base64s \<noteq> 0
         then Some (VideoBubble (''video-'' @ id_text message)
                      (if isClientMessage message then End else Start) base64s)
         else None)"

subsection \<open>Audio\<close>

type_synonym byte = "8 word"

datatype error = InvalidCharacterError

text \<open>
  Modelled from the spec: base64 decoding, which \<^verbatim>\<open>base64sToArrayBuffer\<close> of
  \<^verbatim>\<open>@/vendor/lib/utils\<close> (not part of the page) applies to each payload. Base64 is the
  standard alphabet with \<^verbatim>\<open>=\<close> padding; a payload that is not base64 makes the decoder
  raise, which is \<open>None\<close> here.
\<close>

definition b64_value :: "char \<Rightarrow> nat option" where
  "b64_value c =
     (let n = (of_char c :: nat) in
      if 65 \<le> n \<and> n \<le> 90 then Some (n - 65)
      else if 97 \<le> n \<and> n \<le> 122 then Some (n - 71)
      else if 48 \<le> n \<and> n \<le> 57 then Some (n + 4)
      else if n = 43 then Some 62
      else if n = 47 then Some 63
      else None)"

definition b64_quad :: "char \<Rightarrow> char \<Rightarrow> char \<Rightarrow> char \<Rightarrow> byte list option" where
  "b64_quad a b c d =
     (case (b64_value a, b64_value b) of
        (Some x, Some y) \<Rightarrow>
          (if c = CHR ''='' \<and> d = CHR ''='' then Some [of_nat ((x * 64 + y) div 16)]
           else
             (case b64_value c of
                None \<Rightarrow> None
              | Some z \<Rightarrow>
                  (if d = CHR ''=''
                   then Some [of_nat (((x * 64 + y) * 64 + z) div 1024),
                              of_nat (((x * 64 + y) * 64 + z) div 4)]
                   else
                     (case b64_value d of
                        None \<Rightarrow> None
                      | Some w \<Rightarrow>
                          Some [of_nat ((((x * 64 + y) * 64 + z) * 64 + w) div 65536),
                                of_nat ((((x * 64 + y) * 64 + z) * 64 + w) div 256),
                                of_nat ((((x * 64 + y) * 64 + z) * 64 + w))]))))
      | _ \<Rightarrow> None)"

fun atob :: "string \<Rightarrow> byte list option" where
  "atob [] = Some []"
| "atob (a # b # c # d # rest) =
     (case b64_quad a b c d of
        None \<Rightarrow> None
      | Some bs \<Rightarrow>
          (if length bs < 3 \<and> rest \<noteq> [] then None
           else (case atob rest of None \<Rightarrow> None | Some bytes \<Rightarrow> Some (bs @ bytes))))"
| "atob _ = None"

text \<open>
  Modelled from the spec: \<^verbatim>\<open>base64sToArrayBuffer\<close> of \<^verbatim>\<open>@/vendor/lib/utils\<close> is not
  part of the page. It decodes each payload from base64 to raw bytes in array order and
  concatenates the byte sequences.
\<close>

fun base64sToArrayBuffer :: "string list \<Rightarrow> byte list option" where
  "base64sToArrayBuffer [] = Some []"
| "base64sToArrayBuffer (s # ss) =
     (case atob s of
        None \<Rightarrow> None
      | Some bs \<Rightarrow>
          (case base64sToArrayBuffer ss of None \<Rightarrow> None | Some bytes \<Rightarrow> Some (bs @ bytes)))"

text \<open>
  Modelled from the spec: \<^verbatim>\<open>pcmBufferToBlob\<close> of \<^verbatim>\<open>@/vendor/lib/utils\<close> is not part of
  the page. It wraps the bytes in a single-channel, 16-bit raw-audio container whose header
  carries the sample rate it is given.
\<close>

datatype PcmBlob =
  PcmBlob (numChannels: nat) (bitsPerSample: nat) (sampleRate: nat) (pcmData: "byte list")

definition pcmBufferToBlob :: "byte list \<Rightarrow> nat \<Rightarrow> PcmBlob" where
  "pcmBufferToBlob buffer rate = PcmBlob 1 16 rate buffer"

datatype AudioBubble =
  AudioBubble (ab_key: string) (ab_placement: placement) (ab_blob: PcmBlob)

text \<open>\<^verbatim>\<open>p.inlineData?.mimeType == "audio/pcm;rate=24000" && p.inlineData?.data\<close>\<close>

definition is_server_audio :: "Part \<Rightarrow> bool" where
  "is_server_audio p =
     (case inlineData p of
        None \<Rightarrow> False
      | Some b \<Rightarrow> mimeType b = ''audio/pcm;rate=24000'' \<and> data b \<noteq> [])"

text \<open>
  \<^verbatim>\<open>audioComponent\<close>: \<open>Inl\<close> is an exception raised while decoding, \<open>Inr None\<close> is
  \<^verbatim>\<open>null\<close>. The two assignments to \<^verbatim>\<open>base64s\<close> and the one to \<^verbatim>\<open>rate\<close> are kept in
  the order of the source.
\<close>

definition audioComponent :: "MessageType \<Rightarrow> error + AudioBubble option" where
  "audioComponent message =
     (let base64s0 = [];
          rate0 = (2400 :: nat);
          rate1 = (if isRealtimeInputMessage message then 1600 else rate0);
          base64s1 =
            (if isRealtimeInputMessage message
             then map data
                    (filter (\<lambda>c. mimeType c = ''audio/pcm;rate=16000'' \<and> data c \<noteq> [])
                       (mediaChunks (the message)))
             else base64s0);
          base64s2 =
            (if isServerMessage message \<and> hasModelTurn (serverContent (the message))
             then map (\<lambda>p. data (the (inlineData p)))
                    (filter is_server_audio (modelTurn_parts (serverContent (the message))))
             else base64s1)
      in if length base64s2 \<noteq> 0
         then (case base64sToArrayBuffer base64s2 of
                 None \<Rightarrow> Inl InvalidCharacterError
               | Some buffer \<Rightarrow>
                   Inr (Some (AudioBubble (''audio-'' @ id_text message)
                                (if isClientMessage message then End else Start)
                                (pcmBufferToBlob buffer rate1))))
         else Inr None)"

section \<open>The video player\<close>

text \<open>
  \<^verbatim>\<open>VideoPlayer\<close> turns the frames into a clip over time. Every run of its effect that
  passes the guard creates one recorder, one timer and their closure variables; such a bundle
  is a \<open>pipeline\<close> here. The recorder is \<open>Recording\<close> from \<^verbatim>\<open>recorder.start()\<close> on,
  \<open>Stopping\<close> once \<^verbatim>\<open>recorder.stop()\<close> was called and \<open>Stopped\<close> when its
  \<^verbatim>\<open>onstop\<close> handler has run. \<open>srcs\<close> logs the values assigned to \<^verbatim>\<open>img.src\<close>
  (\<open>None\<close> is \<^verbatim>\<open>undefined\<close>, read past the end of the array).
\<close>

datatype RecordingState = Recording | Stopping | Stopped

record pipeline =
  images :: "string list"
  interval :: nat
  frameRate :: nat
  recorder :: RecordingState
  chunks :: "nat list"
  currentImageIndex :: nat
  srcs :: "string option list"
  timer :: bool

text \<open>
  The component's refs and state. \<open>recorderRef\<close> holds the index of the pipeline whose
  recorder is in \<^verbatim>\<open>recorderRef.current\<close>; \<open>video\<close> is the clip made of the recorded
  chunks.
\<close>

record player =
  canvasRef :: bool
  recorderRef :: "nat option"
  video :: "nat list option"
  poster :: "string option"
  pipelines :: "pipeline list"

definition mounted :: player where
  "mounted = \<lparr>canvasRef = True, recorderRef = None, video = None, poster = None,
              pipelines = []\<rparr>"

text \<open>\<^verbatim>\<open>images[i]\<close>, \<^verbatim>\<open>undefined\<close> out of range.\<close>

definition image_at :: "string list \<Rightarrow> nat \<Rightarrow> string option" where
  "image_at imgs i = (if i < length imgs then Some (imgs ! i) else None)"

text \<open>The effect, run after mount and after every change of \<^verbatim>\<open>images\<close>.\<close>

definition useEffect :: "string list \<Rightarrow> nat \<Rightarrow> nat \<Rightarrow> player \<Rightarrow> player" where
  "useEffect imgs iv fr s =
     (if canvasRef s \<and> length imgs > 0 \<and> recorderRef s = None
      then s\<lparr>poster := Some (imgs ! 0),
             recorderRef := Some (length (pipelines s)),
             pipelines := pipelines s @
               [\<lparr>images = imgs, interval = iv, frameRate = fr, recorder = Recording,
                 chunks = [], currentImageIndex = 0, srcs = [], timer = True\<rparr>]\<rparr>
      else s)"

text \<open>The callback of \<^verbatim>\<open>setInterval\<close>; it only runs while its timer is not cleared.\<close>

definition tick_pipeline :: "pipeline \<Rightarrow> pipeline" where
  "tick_pipeline p =
     (let stop = (currentImageIndex p \<ge> length (images p))
      in p\<lparr>recorder := (if stop then Stopping else recorder p),
            timer := (if stop then False else timer p),
            srcs := srcs p @ [image_at (images p) (currentImageIndex p)],
            currentImageIndex := currentImageIndex p + 1\<rparr>)"

definition tick :: "nat \<Rightarrow> player \<Rightarrow> player" where
  "tick k s =
     (if k < length (pipelines s) \<and> timer (pipelines s ! k)
      then s\<lparr>pipelines := (pipelines s)[k := tick_pipeline (pipelines s ! k)]\<rparr>
      else s)"

text \<open>\<^verbatim>\<open>recorder.ondataavailable\<close> with data of the given size.\<close>

definition ondataavailable :: "nat \<Rightarrow> nat \<Rightarrow> player \<Rightarrow> player" where
  "ondataavailable k n s =
     (if k < length (pipelines s) \<and> recorder (pipelines s ! k) \<noteq> Stopped
      then (if n > 0
            then s\<lparr>pipelines := (pipelines s)
                     [k := (pipelines s ! k)\<lparr>chunks := chunks (pipelines s ! k) @ [n]\<rparr>]\<rparr>
            else s)
      else s)"

text \<open>\<^verbatim>\<open>recorder.onstop\<close>; it runs once, after \<^verbatim>\<open>recorder.stop()\<close>.\<close>

definition onstop :: "nat \<Rightarrow> player \<Rightarrow> player" where
  "onstop k s =
     (if k < length (pipelines s) \<and> recorder (pipelines s ! k) = Stopping
      then s\<lparr>video := Some (chunks (pipelines s ! k)),
             recorderRef := None,
             pipelines := (pipelines s) [k := (pipelines s ! k)\<lparr>recorder := Stopped\<rparr>]\<rparr>
      else s)"

datatype event =
  Effect "string list" nat nat | Tick nat | DataAvailable nat nat | OnStop nat

fun step :: "player \<Rightarrow> event \<Rightarrow> player" where
  "step s (Effect imgs iv fr) = useEffect imgs iv fr s"
| "step s (Tick k) = tick k s"
| "step s (DataAvailable k n) = ondataavailable k n s"
| "step s (OnStop k) = onstop k s"

definition run :: "event list \<Rightarrow> player \<Rightarrow> player" where
  "run evs s = foldl step s evs"

text \<open>A pipeline still holds a resource: its timer runs or its recorder has not finished.\<close>

definition live :: "pipeline \<Rightarrow> bool" where
  "live p = (timer p \<or> recorder p \<noteq> Stopped)"

text \<open>The states of the specification, read off the component.\<close>

datatype phase = Idle | Encoding | Draining | Finalizing | Complete

definition phase :: "player \<Rightarrow> phase" where
  "phase s =
     (case recorderRef s of
        None \<Rightarrow> (if video s = None then Idle else Complete)
      | Some k \<Rightarrow>
          (if k < length (pipelines s)
           then (if recorder (pipelines s ! k) = Recording
                 then (if currentImageIndex (pipelines s ! k) < length (images (pipelines s ! k))
                       then Encoding else Draining)
                 else Finalizing)
           else Idle))"

text \<open>The player after the first effect run and \<open>n\<close> firings of its timer.\<close>

definition after_ticks :: "string list \<Rightarrow> nat \<Rightarrow> nat \<Rightarrow> nat \<Rightarrow> player" where
  "after_ticks imgs iv fr n = run (Effect imgs iv fr # replicate n (Tick 0)) mounted"

text \<open>
  What holds of every state the player reaches: a pipeline that still holds a resource is
  the one \<open>recorderRef\<close> points to, and a running timer belongs to a recorder that records.
\<close>

definition player_inv :: "player \<Rightarrow> bool" where
  "player_inv s =
     (\<forall>k < length (pipelines s).
        (live (pipelines s ! k) \<longrightarrow> recorderRef s = Some k) \<and>
        (timer (pipelines s ! k) \<longrightarrow> recorder (pipelines s ! k) = Recording))"

section \<open>The video bubble of one message over time\<close>

text \<open>
  \<^verbatim>\<open>MessageItem\<close> renders \<^verbatim>\<open>videoComponent\<close> of the latest snapshot of its message. A bubble
  mounts a \<^verbatim>\<open>VideoPlayer\<close> with fresh refs and state and runs its effect, or, when a player
  is mounted already, runs the effect of that player again with the new frames (the props
  \<^verbatim>\<open>interval\<close> and \<^verbatim>\<open>frameRate\<close> are left to their defaults 2000 and 10). A null result
  unmounts the player. The effect returns no cleanup, so the timers and recorders of a
  player that was unmounted go on; \<open>players\<close> keeps every player the message has had.
\<close>

record message_view =
  players :: "player list"
  mounted_player :: "nat option"

definition empty_view :: message_view where
  "empty_view = \<lparr>players = [], mounted_player = None\<rparr>"

definition render :: "MessageType \<Rightarrow> message_view \<Rightarrow> message_view" where
  "render message v =
     (case videoComponent message of
        None \<Rightarrow> v\<lparr>mounted_player := None\<rparr>
      | Some b \<Rightarrow>
          (case mounted_player v of
             None \<Rightarrow>
               v\<lparr>players := players v @ [useEffect (vb_images b) 2000 10 mounted],
                 mounted_player := Some (length (players v))\<rparr>
           | Some i \<Rightarrow>
               v\<lparr>players := (players v)[i := useEffect (vb_images b) 2000 10 (players v ! i)]\<rparr>))"

text \<open>
  What happens to the bubble: a new snapshot of the message is rendered (the memoised bubble
  is computed again, so a mounted player gets a new array of frames and its effect runs), or
  a timer or recorder of one of its players fires, mounted or not. The effect itself only
  runs through a render.
\<close>

datatype view_event = Render MessageType | Player nat event

fun view_step :: "message_view \<Rightarrow> view_event \<Rightarrow> message_view" where
  "view_step v (Render m) = render m v"
| "view_step v (Player i e) =
     (case e of
        Effect imgs iv fr \<Rightarrow> v
      | _ \<Rightarrow>
          (if i < length (players v)
           then v\<lparr>players := (players v)[i := step (players v ! i) e]\<rparr>
           else v))"

definition view_run :: "view_event list \<Rightarrow> message_view \<Rightarrow> message_view" where
  "view_run evs v = foldl view_step v evs"

text \<open>All pipelines of the message that still hold a timer or an unfinished recorder.\<close>

definition live_pipelines :: "message_view \<Rightarrow> pipeline list" where
  "live_pipelines v = concat (map (\<lambda>p. filter live (pipelines p)) (players v))"

text \<open>
  What holds of every state the bubble reaches: the mounted player is one of the players,
  and every player is in a state that a player reaches.
\<close>

definition view_inv :: "message_view \<Rightarrow> bool" where
  "view_inv v =
     ((case mounted_player v of None \<Rightarrow> True | Some i \<Rightarrow> i < length (players v)) \<and>
      list_all player_inv (players v))"

section \<open>Properties of the transcript\<close>

lemma opt_id_Some [simp]: "opt_id (Some m) = Some (id_of m)"
  by (simp add: opt_id_def)

lemma opt_id_None [simp]: "opt_id None = None"
  by (simp add: opt_id_def)

lemma upsert_None [simp]: "upsert None t = t"
  by (simp add: upsert_def)

lemma upsert_present:
  "Some (id_of m) \<in> opt_id ` set t \<Longrightarrow>
   upsert (Some m) t = map (\<lambda>e. if opt_id e = Some (id_of m) then Some m else e) t"
proof -
  assume "Some (id_of m) \<in> opt_id ` set t"
  then have "filter (\<lambda>e. opt_id e = Some (id_of m)) t \<noteq> []"
    by (auto simp: filter_empty_conv)
  then show ?thesis
    by (simp add: upsert_def setMessages_updater_def)
qed

lemma upsert_absent:
  "Some (id_of m) \<notin> opt_id ` set t \<Longrightarrow> upsert (Some m) t = t @ [Some m]"
proof -
  assume "Some (id_of m) \<notin> opt_id ` set t"
  then have "filter (\<lambda>e. opt_id e = Some (id_of m)) t = []"
    by (force simp: filter_empty_conv image_iff)
  then show ?thesis
    by (simp add: upsert_def setMessages_updater_def)
qed

lemma map_opt_id_upsert:
  "map opt_id (upsert (Some m) t) =
     (if Some (id_of m) \<in> set (map opt_id t) then map opt_id t
      else map opt_id t @ [Some (id_of m)])"
proof (cases "Some (id_of m) \<in> opt_id ` set t")
  case True
  have "map opt_id (map (\<lambda>e. if opt_id e = Some (id_of m) then Some m else e) t) = map opt_id t"
    by (induction t) auto
  with True show ?thesis by (simp add: upsert_present)
next
  case False
  then show ?thesis by (simp add: upsert_absent)
qed

lemma upserts_snoc: "upserts (ms @ [m]) t = upsert m (upserts ms t)"
  by (simp add: upserts_def)

lemma input_ids_snoc:
  "input_ids (ms @ [m]) = input_ids ms @ (case m of None \<Rightarrow> [] | Some x \<Rightarrow> [id_of x])"
  by (induction ms rule: input_ids.induct) (auto split: option.splits)

lemma first_seen_snoc:
  "first_seen (xs @ [x]) = (if x \<in> set xs then first_seen xs else first_seen xs @ [x])"
  by (simp add: first_seen_def)

lemma set_first_seen [simp]: "set (first_seen xs) = set xs"
  by (simp add: first_seen_def)

lemma distinct_first_seen [simp]: "distinct (first_seen xs)"
  by (simp add: first_seen_def)

lemma ids_upserts_empty:
  "map opt_id (upserts ms []) = map Some (first_seen (input_ids ms))"
proof (induction ms rule: rev_induct)
  case Nil
  then show ?case by (simp add: upserts_def first_seen_def)
next
  case (snoc m ms)
  show ?case
  proof (cases m)
    case None
    with snoc show ?thesis by (simp add: upserts_snoc input_ids_snoc)
  next
    case (Some x)
    have "(Some (id_of x) \<in> set (map opt_id (upserts ms []))) = (id_of x \<in> set (input_ids ms))"
      by (auto simp: snoc.IH)
    with Some snoc show ?thesis
      by (simp add: upserts_snoc input_ids_snoc map_opt_id_upsert first_seen_snoc
          del: set_map)
  qed
qed

text \<open>
  Claim C1. For every transcript and every input: a null message leaves the transcript as it
  is; when an entry with the message's id exists, the result has the same length and holds
  the message at every position whose entry had that id, every other position being
  untouched; otherwise the message is appended at the end. No entry is removed, and the
  entries with other ids keep their order.
\<close>

theorem upsert_contract:
  "upsert None t = t \<and>
   (Some (id_of m) \<in> set (map opt_id t) \<longrightarrow>
      length (upsert (Some m) t) = length t \<and>
      (\<forall>i < length t. upsert (Some m) t ! i =
          (if opt_id (t ! i) = Some (id_of m) then Some m else t ! i))) \<and>
   (Some (id_of m) \<notin> set (map opt_id t) \<longrightarrow> upsert (Some m) t = t @ [Some m]) \<and>
   length t \<le> length (upsert msg t) \<and>
   filter (\<lambda>e. opt_id e \<noteq> opt_id msg) (upsert msg t) = filter (\<lambda>e. opt_id e \<noteq> opt_id msg) t"
proof -
  have keep: "length t \<le> length (upsert msg t) \<and>
     filter (\<lambda>e. opt_id e \<noteq> opt_id msg) (upsert msg t) = filter (\<lambda>e. opt_id e \<noteq> opt_id msg) t"
  proof (cases msg)
    case None
    then show ?thesis by simp
  next
    case (Some x)
    show ?thesis
    proof (cases "Some (id_of x) \<in> opt_id ` set t")
      case True
      have "filter (\<lambda>e. opt_id e \<noteq> Some (id_of x))
              (map (\<lambda>e. if opt_id e = Some (id_of x) then Some x else e) t)
            = filter (\<lambda>e. opt_id e \<noteq> Some (id_of x)) t"
        by (induction t) auto
      with True Some show ?thesis by (simp add: upsert_present)
    next
      case False
      with Some show ?thesis by (simp add: upsert_absent)
    qed
  qed
  have present: "Some (id_of m) \<in> set (map opt_id t) \<longrightarrow>
      length (upsert (Some m) t) = length t \<and>
      (\<forall>i < length t. upsert (Some m) t ! i =
          (if opt_id (t ! i) = Some (id_of m) then Some m else t ! i))"
    by (simp add: upsert_present)
  have absent: "Some (id_of m) \<notin> set (map opt_id t) \<longrightarrow> upsert (Some m) t = t @ [Some m]"
    by (simp add: upsert_absent)
  from keep present absent show ?thesis by simp
qed

theorem upsert_contract_witness:
  "upsert None [Some (ServerContentMessage ''b1'' TurnComplete)]
     = [Some (ServerContentMessage ''b1'' TurnComplete)] \<and>
   Some (id_of (ClientContentMessage ''u1'' [Content ''user'' [Part (Some ''hi'') None]]))
     \<in> set (map opt_id [Some (ClientContentMessage ''u1'' []), Some (ServerContentMessage ''b1'' TurnComplete)]) \<and>
   upsert (Some (ClientContentMessage ''u1'' [Content ''user'' [Part (Some ''hi'') None]]))
      [Some (ClientContentMessage ''u1'' []), Some (ServerContentMessage ''b1'' TurnComplete)] ! 0
     = Some (ClientContentMessage ''u1'' [Content ''user'' [Part (Some ''hi'') None]]) \<and>
   upsert (Some (ClientContentMessage ''u1'' [Content ''user'' [Part (Some ''hi'') None]]))
      [Some (ClientContentMessage ''u1'' []), Some (ServerContentMessage ''b1'' TurnComplete)] ! 1
     = Some (ServerContentMessage ''b1'' TurnComplete) \<and>
   Some (id_of (ServerContentMessage ''b2'' Interrupted))
     \<notin> set (map opt_id [Some (ClientContentMessage ''u1'' []), Some (ServerContentMessage ''b1'' TurnComplete)]) \<and>
   upsert (Some (ServerContentMessage ''b2'' Interrupted))
      [Some (ClientContentMessage ''u1'' []), Some (ServerContentMessage ''b1'' TurnComplete)]
     = [Some (ClientContentMessage ''u1'' []), Some (ServerContentMessage ''b1'' TurnComplete),
        Some (ServerContentMessage ''b2'' Interrupted)]"
  using upsert_contract [of "[Some (ServerContentMessage ''b1'' TurnComplete)]"]
    upsert_contract [of "[Some (ClientContentMessage ''u1'' []), Some (ServerContentMessage ''b1'' TurnComplete)]"
       "ClientContentMessage ''u1'' [Content ''user'' [Part (Some ''hi'') None]]"]
    upsert_contract [of "[Some (ClientContentMessage ''u1'' []), Some (ServerContentMessage ''b1'' TurnComplete)]"
       "ServerContentMessage ''b2'' Interrupted"]
  by (simp add: All_less_Suc)

lemma entries_for_upsert:
  "entries_for k (upsert (Some m) t) =
     (if k = id_of m
      then (if entries_for k t = [] then [Some m] else map (\<lambda>_. Some m) (entries_for k t))
      else entries_for k t)"
proof (cases "Some (id_of m) \<in> opt_id ` set t")
  case True
  then have ne: "entries_for (id_of m) t \<noteq> []"
    by (auto simp: entries_for_def filter_empty_conv)
  have "filter (\<lambda>e. opt_id e = Some k)
          (map (\<lambda>e. if opt_id e = Some (id_of m) then Some m else e) t)
        = (if k = id_of m then map (\<lambda>_. Some m) (filter (\<lambda>e. opt_id e = Some k) t)
           else filter (\<lambda>e. opt_id e = Some k) t)"
    by (induction t) auto
  with True ne show ?thesis
    by (simp add: upsert_present entries_for_def)
next
  case False
  then have "entries_for (id_of m) t = []"
    by (force simp: entries_for_def filter_empty_conv image_iff)
  with False show ?thesis
    by (auto simp: upsert_absent entries_for_def)
qed

lemma set_entries_for_upsert_same:
  "set (entries_for (id_of m) (upsert (Some m) t)) = {Some m}"
  by (cases "entries_for (id_of m) t") (auto simp: entries_for_upsert)

lemma entries_for_upsert_other:
  "k \<noteq> id_of m \<Longrightarrow> entries_for k (upsert (Some m) t) = entries_for k t"
  by (simp add: entries_for_upsert)

lemma ids_upsert:
  "opt_id ` set (upsert (Some m) t) = insert (Some (id_of m)) (opt_id ` set t)"
proof -
  have "set (map opt_id (upsert (Some m) t)) = insert (Some (id_of m)) (set (map opt_id t))"
    by (simp only: map_opt_id_upsert) auto
  then show ?thesis by simp
qed

lemma replace_commute:
  "id_of a \<noteq> id_of b \<Longrightarrow>
   map (\<lambda>e. if opt_id e = Some (id_of a) then Some a else e)
     (map (\<lambda>e. if opt_id e = Some (id_of b) then Some b else e) t) =
   map (\<lambda>e. if opt_id e = Some (id_of b) then Some b else e)
     (map (\<lambda>e. if opt_id e = Some (id_of a) then Some a else e) t)"
  by (induction t) auto

lemma upsert_commute_present:
  assumes "id_of a \<noteq> id_of b"
    and "Some (id_of a) \<in> opt_id ` set t \<or> Some (id_of b) \<in> opt_id ` set t"
  shows "upsert (Some a) (upsert (Some b) t) = upsert (Some b) (upsert (Some a) t)"
proof -
  have half: "upsert (Some x) (upsert (Some y) t) = upsert (Some y) (upsert (Some x) t)"
    if ne: "id_of x \<noteq> id_of y" and px: "Some (id_of x) \<in> opt_id ` set t" for x y
  proof (cases "Some (id_of y) \<in> opt_id ` set t")
    case True
    from px have 1: "Some (id_of x) \<in> opt_id ` set (upsert (Some y) t)"
      by (simp add: ids_upsert)
    from True have 2: "Some (id_of y) \<in> opt_id ` set (upsert (Some x) t)"
      by (simp add: ids_upsert)
    have "upsert (Some x) (upsert (Some y) t)
        = map (\<lambda>e. if opt_id e = Some (id_of x) then Some x else e) (upsert (Some y) t)"
      by (rule upsert_present [OF 1])
    also have "\<dots> = map (\<lambda>e. if opt_id e = Some (id_of x) then Some x else e)
        (map (\<lambda>e. if opt_id e = Some (id_of y) then Some y else e) t)"
      by (simp only: upsert_present [OF True])
    also have "\<dots> = map (\<lambda>e. if opt_id e = Some (id_of y) then Some y else e)
        (map (\<lambda>e. if opt_id e = Some (id_of x) then Some x else e) t)"
      by (rule replace_commute [OF ne])
    also have "\<dots> = map (\<lambda>e. if opt_id e = Some (id_of y) then Some y else e)
        (upsert (Some x) t)"
      by (simp only: upsert_present [OF px])
    also have "\<dots> = upsert (Some y) (upsert (Some x) t)"
      by (rule upsert_present [OF 2, symmetric])
    finally show ?thesis .
  next
    case False
    from px have 1: "Some (id_of x) \<in> opt_id ` set (upsert (Some y) t)"
      by (simp add: ids_upsert)
    from False ne have 2: "Some (id_of y) \<notin> opt_id ` set (upsert (Some x) t)"
      by (simp add: ids_upsert)
    have "upsert (Some x) (upsert (Some y) t)
        = map (\<lambda>e. if opt_id e = Some (id_of x) then Some x else e) (upsert (Some y) t)"
      by (rule upsert_present [OF 1])
    also have "\<dots> = map (\<lambda>e. if opt_id e = Some (id_of x) then Some x else e) (t @ [Some y])"
      by (simp only: upsert_absent [OF False])
    also have "\<dots> = map (\<lambda>e. if opt_id e = Some (id_of x) then Some x else e) t @ [Some y]"
      using ne by simp
    also have "\<dots> = upsert (Some x) t @ [Some y]"
      by (simp only: upsert_present [OF px])
    also have "\<dots> = upsert (Some y) (upsert (Some x) t)"
      by (rule upsert_absent [OF 2, symmetric])
    finally show ?thesis .
  qed
  from assms(2) show ?thesis
  proof
    assume "Some (id_of a) \<in> opt_id ` set t"
    then show ?thesis using half [of a b] assms(1) by simp
  next
    assume "Some (id_of b) \<in> opt_id ` set t"
    then show ?thesis using half [of b a] assms(1) by simp
  qed
qed

lemma upsert_both_new:
  assumes "id_of a \<noteq> id_of b"
    and "Some (id_of a) \<notin> opt_id ` set t" and "Some (id_of b) \<notin> opt_id ` set t"
  shows "upsert (Some a) (upsert (Some b) t) = t @ [Some b, Some a]"
proof -
  from assms have "Some (id_of a) \<notin> opt_id ` set (upsert (Some b) t)"
    by (simp add: ids_upsert)
  then show ?thesis
    by (simp add: upsert_absent assms(3))
qed

theorem distinct_ids_commute_counterexample:
  "upsert (Some (ClientContentMessage ''u1'' [])) (upsert (Some (ServerContentMessage ''b1'' TurnComplete)) [])
     = [Some (ServerContentMessage ''b1'' TurnComplete), Some (ClientContentMessage ''u1'' [])] \<and>
   upsert (Some (ServerContentMessage ''b1'' TurnComplete)) (upsert (Some (ClientContentMessage ''u1'' [])) [])
     = [Some (ClientContentMessage ''u1'' []), Some (ServerContentMessage ''b1'' TurnComplete)] \<and>
   upsert (Some (ClientContentMessage ''u1'' [])) (upsert (Some (ServerContentMessage ''b1'' TurnComplete)) [])
     \<noteq> upsert (Some (ServerContentMessage ''b1'' TurnComplete)) (upsert (Some (ClientContentMessage ''u1'' [])) [])"
  by (simp add: upsert_def setMessages_updater_def)

text \<open>
  Claim C2, as the page has it. With two snapshots \<open>a1\<close>, \<open>a2\<close> of id \<open>i1\<close> from one
  stream and one snapshot \<open>b1\<close> of another id \<open>i2\<close> from the other, every merge that
  keeps the order of each stream ends with \<open>a2\<close> as the entry for \<open>i1\<close> and \<open>b1\<close> as
  the entry for \<open>i2\<close>, from any transcript; from the empty one the three merges give
  \<open>[a2, b1]\<close>, \<open>[a2, b1]\<close> and \<open>[b1, a2]\<close>. Two upserts of distinct ids give the same
  entries for every id in either order. They give the same transcript in either order when
  at least one of the two ids is in the transcript already; when both ids are new, the two
  new entries stand at the end in the order in which they were applied.
\<close>

theorem merge_order_independent:
  assumes "id_of a1 = i1" and "id_of a2 = i1" and "id_of b1 = i2" and "i1 \<noteq> i2"
  shows "(\<forall>ms \<in> set (interleavings [Some a1, Some a2] [Some b1]).
            set (entries_for i1 (upserts ms t)) = {Some a2} \<and>
            set (entries_for i2 (upserts ms t)) = {Some b1} \<and>
            entries_for i1 (upserts ms []) = [Some a2] \<and>
            entries_for i2 (upserts ms []) = [Some b1]) \<and>
         upserts [Some a1, Some a2, Some b1] [] = [Some a2, Some b1] \<and>
         upserts [Some a1, Some b1, Some a2] [] = [Some a2, Some b1] \<and>
         upserts [Some b1, Some a1, Some a2] [] = [Some b1, Some a2] \<and>
         (\<forall>k. entries_for k (upsert (Some a2) (upsert (Some b1) t)) =
              entries_for k (upsert (Some b1) (upsert (Some a2) t))) \<and>
         (Some i1 \<in> opt_id ` set t \<or> Some i2 \<in> opt_id ` set t \<longrightarrow>
            upsert (Some a2) (upsert (Some b1) t) = upsert (Some b1) (upsert (Some a2) t)) \<and>
         (Some i1 \<notin> opt_id ` set t \<and> Some i2 \<notin> opt_id ` set t \<longrightarrow>
            upsert (Some a2) (upsert (Some b1) t) = t @ [Some b1, Some a2] \<and>
            upsert (Some b1) (upsert (Some a2) t) = t @ [Some a2, Some b1])"
proof -
  have ne: "i2 \<noteq> i1" using assms(4) by simp
  have e0: "entries_for k [] = []" for k by (simp add: entries_for_def)
  have A: "set (entries_for i1 (upsert (Some a2) s)) = {Some a2}" for s
    using set_entries_for_upsert_same [of a2 s] assms(2) by simp
  have B: "set (entries_for i2 (upsert (Some b1) s)) = {Some b1}" for s
    using set_entries_for_upsert_same [of b1 s] assms(3) by simp
  have A': "entries_for i1 (upsert (Some b1) s) = entries_for i1 s" for s
    using entries_for_upsert_other [of i1 b1 s] assms by simp
  have B1: "entries_for i2 (upsert (Some a1) s) = entries_for i2 s" for s
    using entries_for_upsert_other [of i2 a1 s] assms by simp
  have B2: "entries_for i2 (upsert (Some a2) s) = entries_for i2 s" for s
    using entries_for_upsert_other [of i2 a2 s] assms by simp
  have E1: "entries_for i1 (upsert (Some a2) (upsert (Some a1) s)) = [Some a2]"
    if "entries_for i1 s = []" for s
    using that assms(1,2) by (simp add: entries_for_upsert)
  have E2: "entries_for i2 (upsert (Some b1) s) = [Some b1]" if "entries_for i2 s = []" for s
    using that assms(3) by (simp add: entries_for_upsert)
  have E3: "entries_for i1 (upsert (Some a2) (upsert (Some b1) (upsert (Some a1) s))) = [Some a2]"
    if "entries_for i1 s = []" for s
    using that assms by (simp add: entries_for_upsert)
  have first: "\<forall>ms \<in> set (interleavings [Some a1, Some a2] [Some b1]).
            set (entries_for i1 (upserts ms t)) = {Some a2} \<and>
            set (entries_for i2 (upserts ms t)) = {Some b1} \<and>
            entries_for i1 (upserts ms []) = [Some a2] \<and>
            entries_for i2 (upserts ms []) = [Some b1]"
    by (simp add: upserts_def A B A' B1 B2 E1 E2 E3 e0)
  have lists: "upserts [Some a1, Some a2, Some b1] [] = [Some a2, Some b1] \<and>
         upserts [Some a1, Some b1, Some a2] [] = [Some a2, Some b1] \<and>
         upserts [Some b1, Some a1, Some a2] [] = [Some b1, Some a2]"
    using assms ne by (simp add: upserts_def upsert_def setMessages_updater_def)
  have second: "entries_for k (upsert (Some a2) (upsert (Some b1) t)) =
              entries_for k (upsert (Some b1) (upsert (Some a2) t))" for k
    using assms by (simp add: entries_for_upsert)
  have da: "id_of a2 \<noteq> id_of b1" and db: "id_of b1 \<noteq> id_of a2"
    using assms by simp_all
  have third: "upsert (Some a2) (upsert (Some b1) t) = upsert (Some b1) (upsert (Some a2) t)"
    if "Some i1 \<in> opt_id ` set t \<or> Some i2 \<in> opt_id ` set t"
    using upsert_commute_present [OF da] that assms(2,3) by simp
  have fourth: "upsert (Some a2) (upsert (Some b1) t) = t @ [Some b1, Some a2] \<and>
            upsert (Some b1) (upsert (Some a2) t) = t @ [Some a2, Some b1]"
    if "Some i1 \<notin> opt_id ` set t \<and> Some i2 \<notin> opt_id ` set t"
    using upsert_both_new [OF da, of t] upsert_both_new [OF db, of t] that assms(2,3) by simp
  from first lists second third fourth show ?thesis by blast
qed

theorem merge_order_independent_witness:
  "set (interleavings [Some (ClientContentMessage ''u1'' []),
                       Some (ClientContentMessage ''u1'' [Content ''user'' []])]
                      [Some (ServerContentMessage ''b1'' TurnComplete)])
     = {[Some (ClientContentMessage ''u1'' []), Some (ClientContentMessage ''u1'' [Content ''user'' []]),
         Some (ServerContentMessage ''b1'' TurnComplete)],
        [Some (ClientContentMessage ''u1'' []), Some (ServerContentMessage ''b1'' TurnComplete),
         Some (ClientContentMessage ''u1'' [Content ''user'' []])],
        [Some (ServerContentMessage ''b1'' TurnComplete), Some (ClientContentMessage ''u1'' []),
         Some (ClientContentMessage ''u1'' [Content ''user'' []])]} \<and>
   entries_for ''u1'' (upserts [Some (ServerContentMessage ''b1'' TurnComplete),
         Some (ClientContentMessage ''u1'' []),
         Some (ClientContentMessage ''u1'' [Content ''user'' []])] [])
     = [Some (ClientContentMessage ''u1'' [Content ''user'' []])] \<and>
   entries_for ''b1'' (upserts [Some (ClientContentMessage ''u1'' []),
         Some (ServerContentMessage ''b1'' TurnComplete),
         Some (ClientContentMessage ''u1'' [Content ''user'' []])] [])
     = [Some (ServerContentMessage ''b1'' TurnComplete)] \<and>
   upsert (Some (ClientContentMessage ''u1'' [Content ''user'' []]))
      (upsert (Some (ServerContentMessage ''b1'' TurnComplete)) [])
     = [Some (ServerContentMessage ''b1'' TurnComplete),
        Some (ClientContentMessage ''u1'' [Content ''user'' []])] \<and>
   Some ''u1'' \<in> opt_id ` set [Some (ClientContentMessage ''u1'' [])] \<and>
   upsert (Some (ClientContentMessage ''u1'' [Content ''user'' []]))
      (upsert (Some (ServerContentMessage ''b1'' TurnComplete)) [Some (ClientContentMessage ''u1'' [])])
     = upsert (Some (ServerContentMessage ''b1'' TurnComplete))
      (upsert (Some (ClientContentMessage ''u1'' [Content ''user'' []])) [Some (ClientContentMessage ''u1'' [])])"
  using merge_order_independent [of "ClientContentMessage ''u1'' []" "''u1''"
      "ClientContentMessage ''u1'' [Content ''user'' []]"
      "ServerContentMessage ''b1'' TurnComplete" "''b1''" "[]"]
    merge_order_independent [of "ClientContentMessage ''u1'' []" "''u1''"
      "ClientContentMessage ''u1'' [Content ''user'' []]"
      "ServerContentMessage ''b1'' TurnComplete" "''b1''" "[Some (ClientContentMessage ''u1'' [])]"]
  by auto

lemma length_filter_distinct_map:
  "distinct (map f xs) \<Longrightarrow> length (filter (\<lambda>x. f x = v) xs) = (if v \<in> f ` set xs then 1 else 0)"
  by (induction xs) auto

lemma foldl_updater_upserts:
  "foldl (\<lambda>t cur. setMessages_updater cur t) t q = upserts (map Some q) t"
  by (induction q arbitrary: t) (simp_all add: upserts_def upsert_def)

lemma upserts_append: "upserts (xs @ ys) t = upserts ys (upserts xs t)"
  by (simp add: upserts_def)

lemma upserts_Cons: "upserts (x # xs) t = upserts xs (upsert x t)"
  by (simp add: upserts_def)

lemma upserts_Nil: "upserts [] t = t"
  by (simp add: upserts_def)

lemma page_run_Cons: "page_run (e # evs) p = page_run evs (page_step p e)"
  by (simp add: page_run_def)

lemma transcript_page_run:
  "transcript (page_run evs p) = upserts (applied (frame_requests p) evs) (transcript p)"
proof (induction evs arbitrary: p)
  case Nil
  then show ?case by (simp add: page_run_def upserts_Nil)
next
  case (Cons e evs)
  show ?case
  proof (cases e)
    case (BotMessage m)
    then show ?thesis
      by (cases m) (simp_all add: page_run_Cons Cons.IH)
  next
    case (UserMessage m)
    then show ?thesis
      by (simp add: page_run_Cons Cons.IH upserts_Cons)
  next
    case AnimationFrame
    then show ?thesis
      by (simp add: page_run_Cons Cons.IH upserts_append foldl_updater_upserts)
  qed
qed

lemma input_ids_append: "input_ids (xs @ ys) = input_ids xs @ input_ids ys"
  by (induction xs rule: input_ids.induct) simp_all

lemma input_ids_map_Some: "input_ids (map Some q) = map id_of q"
  by (induction q) simp_all

text \<open>After a final frame every observed snapshot has been applied.\<close>

lemma set_applied_flush:
  "set (input_ids (applied q (evs @ [AnimationFrame])))
     = id_of ` set q \<union> set (input_ids (observed evs))"
proof (induction evs arbitrary: q)
  case Nil
  then show ?case by (simp add: input_ids_append input_ids_map_Some)
next
  case (Cons e evs)
  show ?case
  proof (cases e)
    case (BotMessage m)
    then show ?thesis by (cases m) (auto simp: Cons.IH)
  next
    case (UserMessage m)
    then show ?thesis by (cases m) (auto simp: Cons.IH)
  next
    case AnimationFrame
    then show ?thesis by (auto simp: Cons.IH input_ids_append input_ids_map_Some)
  qed
qed

theorem first_seen_counterexample:
  "map opt_id (transcript (page_run
      [BotMessage (Some (ServerContentMessage ''b1'' TurnComplete)),
       UserMessage (Some (ClientContentMessage ''u1'' [])),
       AnimationFrame] initial_page))
     = [Some ''u1'', Some ''b1''] \<and>
   first_seen (input_ids (observed
      [BotMessage (Some (ServerContentMessage ''b1'' TurnComplete)),
       UserMessage (Some (ClientContentMessage ''u1'' [])),
       AnimationFrame])) = [''b1'', ''u1'']"
  by (simp add: page_run_def initial_page_def upsert_def setMessages_updater_def first_seen_def)

text \<open>
  Claim C3, as the page has it. In every state of the page the ids of the transcript are
  pairwise distinct, every id among the snapshots applied so far has exactly one entry, and
  the entries stand in the order in which their ids were first applied: a user snapshot is
  applied when it is observed, a bot snapshot at the next animation frame. Once a frame has
  run, the ids are exactly those of the non-null snapshots observed. For snapshots applied
  one after the other to the empty transcript, the order of first application is the order
  in which the ids were first seen.
\<close>

theorem id_uniqueness:
  "distinct (map opt_id (transcript (page_run evs initial_page))) \<and>
   map opt_id (transcript (page_run evs initial_page))
     = map Some (first_seen (input_ids (applied [] evs))) \<and>
   length (entries_for i (transcript (page_run evs initial_page)))
     = (if i \<in> set (input_ids (applied [] evs)) then 1 else 0) \<and>
   set (map opt_id (transcript (page_run (evs @ [AnimationFrame]) initial_page)))
     = Some ` set (input_ids (observed evs)) \<and>
   map opt_id (upserts ms []) = map Some (first_seen (input_ids ms))"
proof -
  have tr: "transcript (page_run es initial_page) = upserts (applied [] es) []" for es
    by (simp add: transcript_page_run initial_page_def)
  have ids: "map opt_id (transcript (page_run es initial_page))
      = map Some (first_seen (input_ids (applied [] es)))" for es
    by (simp only: tr ids_upserts_empty)
  have d: "distinct (map opt_id (transcript (page_run evs initial_page)))"
    by (simp add: ids distinct_map)
  have s: "opt_id ` set (transcript (page_run evs initial_page))
      = Some ` set (input_ids (applied [] evs))"
    using ids [of evs] by (metis set_map set_first_seen)
  have l: "length (entries_for i (transcript (page_run evs initial_page)))
     = (if i \<in> set (input_ids (applied [] evs)) then 1 else 0)"
    unfolding entries_for_def using length_filter_distinct_map [OF d, of "Some i"] s
    by auto
  have f: "set (map opt_id (transcript (page_run (evs @ [AnimationFrame]) initial_page)))
     = Some ` set (input_ids (observed evs))"
    by (simp only: ids set_map set_first_seen set_applied_flush) simp
  from d ids [of evs] l f ids_upserts_empty [of ms] show ?thesis by blast
qed

theorem id_uniqueness_witness:
  "map opt_id (transcript (page_run
      [BotMessage (Some (ServerContentMessage ''b1'' TurnComplete)),
       UserMessage (Some (ClientContentMessage ''u1'' [])),
       UserMessage None,
       AnimationFrame,
       BotMessage (Some (ServerContentMessage ''b1'' Interrupted))] initial_page))
     = [Some ''u1'', Some ''b1''] \<and>
   length (entries_for ''b1'' (transcript (page_run
      [BotMessage (Some (ServerContentMessage ''b1'' TurnComplete)),
       UserMessage (Some (ClientContentMessage ''u1'' [])),
       UserMessage None,
       AnimationFrame,
       BotMessage (Some (ServerContentMessage ''b1'' Interrupted))] initial_page))) = 1"
  using id_uniqueness [of "[BotMessage (Some (ServerContentMessage ''b1'' TurnComplete)),
       UserMessage (Some (ClientContentMessage ''u1'' [])),
       UserMessage None,
       AnimationFrame,
       BotMessage (Some (ServerContentMessage ''b1'' Interrupted))]" "''b1''"]
  by (simp add: first_seen_def)

section \<open>Properties of the derived views\<close>

lemma atob_10: "atob ''AQIDBAUGBwgJCg=='' = Some [1,2,3,4,5,6,7,8,9,10]"
  by (simp add: b64_quad_def b64_value_def)

lemma atob_20: "atob ''CwwNDg8QERITFBUWFxgZGhscHR4='' =
   Some [11,12,13,14,15,16,17,18,19,20,21,22,23,24,25,26,27,28,29,30]"
  by (simp add: b64_quad_def b64_value_def)

lemma atob_5: "atob ''HyAhIiM='' = Some [31,32,33,34,35]"
  by (simp add: b64_quad_def b64_value_def)

text \<open>
  Claim C4. Three chunks tagged \<^verbatim>\<open>audio/pcm;rate=16000\<close> that decode to 10, 20 and 5
  bytes give one artifact whose payload is the 35 bytes in array order. The rate handed to
  the container is 1600 for a realtime input, and 2400 for a model turn, where the MIME types
  that the same function filters on say 16000 and 24000.
\<close>

theorem audio_sample_rate_defect:
  "audioComponent (Some (RealtimeInputMessage ''r1''
      [GenerativeContentBlob ''audio/pcm;rate=16000'' ''AQIDBAUGBwgJCg=='',
       GenerativeContentBlob ''audio/pcm;rate=16000'' ''CwwNDg8QERITFBUWFxgZGhscHR4='',
       GenerativeContentBlob ''audio/pcm;rate=16000'' ''HyAhIiM='']))
   = Inr (Some (AudioBubble ''audio-r1'' Start
        (PcmBlob 1 16 1600
           [1,2,3,4,5,6,7,8,9,10,11,12,13,14,15,16,17,18,19,20,21,22,23,24,25,26,27,28,29,30,
            31,32,33,34,35]))) \<and>
   length [1,2,3,4,5,6,7,8,9,10,11,12,13,14,15,16,17,18,19,20,21,22,23,24,25,26,27,28,29,30,
            31,32,33,34,35 :: byte] = 35 \<and>
   audioComponent (Some (ServerContentMessage ''b1''
      (ModelTurn [Part None (Some (GenerativeContentBlob ''audio/pcm;rate=24000'' ''HyAhIiM=''))])))
   = Inr (Some (AudioBubble ''audio-b1'' Start (PcmBlob 1 16 2400 [31,32,33,34,35])))"
  by (simp add: audioComponent_def is_server_audio_def id_text_def pcmBufferToBlob_def
      atob_10 atob_20 atob_5 del: atob.simps)

theorem pending_vs_empty_counterexample:
  "textComponent (Some (ServerContentMessage ''b1'' (ModelTurn [Part (Some '''') None]))) = None \<and>
   extractText (Some (ServerContentMessage ''b1'' (ModelTurn [Part (Some '''') None])))
     \<noteq> Some (Text '''')"
  by (simp add: extractText_def textComponent_def join_empty_def text_or_empty_def)

text \<open>
  Claim C5, as the page has it. A server message whose model turn has no parts gives the
  loading bubble, the pending state, and not a string. A server message whose model turn has
  exactly one part with the text \<^verbatim>\<open>""\<close> gives no bubble at all: the result is null,
  neither the pending state nor the empty string.
\<close>

theorem pending_vs_empty:
  "textComponent (Some (ServerContentMessage i (ModelTurn []))) = Some (TextBubble i Start True '''') \<and>
   extractText (Some (ServerContentMessage i (ModelTurn []))) = Some Pending \<and>
   textComponent (Some (ServerContentMessage i (ModelTurn [Part (Some '''') d]))) = None \<and>
   extractText (Some (ServerContentMessage i (ModelTurn [Part (Some '''') d]))) = None"
  by (simp add: extractText_def textComponent_def join_empty_def text_or_empty_def)

theorem client_text_counterexample:
  "textComponent (Some (ClientContentMessage ''u1'' [Content ''user'' [Part (Some '''') None]]))
     = None \<and>
   extractText (Some (ClientContentMessage ''u1'' [Content ''user'' [Part (Some '''') None]]))
     \<noteq> Some (Text '''')"
  by (simp add: extractText_def textComponent_def join_empty_def client_content_def truthy_def)

lemma join_empty_texts:
  "join_empty (map part_text ps) = concat (map text_or_empty ps)"
  by (induction ps) (simp_all add: join_empty_def text_or_empty_def)

text \<open>
  Claim C6, as the page has it. For a client message with a first turn, the text is the
  concatenation, in order, of the text fields of the parts of that turn (a part without text
  adds nothing) when this concatenation is not empty, and it is shown on the user's side;
  when the concatenation is empty, or there is no turn, the result is null.
\<close>

theorem client_text:
  "textComponent (Some (ClientContentMessage i (c # cs))) =
     (if concat (map text_or_empty (parts c)) = [] then None
      else Some (TextBubble i End False (concat (map text_or_empty (parts c))))) \<and>
   extractText (Some (ClientContentMessage i (c # cs))) =
     (if concat (map text_or_empty (parts c)) = [] then None
      else Some (Text (concat (map text_or_empty (parts c))))) \<and>
   textComponent (Some (ClientContentMessage i [])) = None \<and>
   extractText (Some (ClientContentMessage i [])) = None"
  by (simp add: extractText_def textComponent_def client_content_def truthy_def
      join_empty_texts)

text \<open>
  Claim C9. A client message gives neither an audio nor a video bubble. A realtime input
  without a chunk that is tagged as 16 kHz audio and has data gives no audio bubble, and one
  without a chunk that is tagged as JPEG and has data gives no video bubble; a model turn
  without a part whose inline data is tagged as 24 kHz audio and is not empty gives no audio
  bubble, as does server content without a model turn; a server message never gives a video
  bubble. In each case the result is null and nothing is raised.
\<close>

theorem no_artifact_cases:
  "audioComponent (Some (ClientContentMessage i ts)) = Inr None \<and>
   videoComponent (Some (ClientContentMessage i ts)) = None \<and>
   ((\<forall>c \<in> set cs. mimeType c \<noteq> ''audio/pcm;rate=16000'' \<or> data c = []) \<longrightarrow>
      audioComponent (Some (RealtimeInputMessage i cs)) = Inr None) \<and>
   ((\<forall>c \<in> set cs. mimeType c \<noteq> ''image/jpeg'' \<or> data c = []) \<longrightarrow>
      videoComponent (Some (RealtimeInputMessage i cs)) = None) \<and>
   ((\<forall>p \<in> set ps. \<forall>b. inlineData p = Some b \<longrightarrow>
         mimeType b \<noteq> ''audio/pcm;rate=24000'' \<or> data b = []) \<longrightarrow>
      audioComponent (Some (ServerContentMessage i (ModelTurn ps))) = Inr None) \<and>
   (\<not> hasModelTurn sc \<longrightarrow> audioComponent (Some (ServerContentMessage i sc)) = Inr None) \<and>
   videoComponent (Some (ServerContentMessage i sc)) = None"
proof -
  have a: "audioComponent (Some (ClientContentMessage i ts)) = Inr None"
    by (simp add: audioComponent_def)
  have b: "videoComponent (Some (ClientContentMessage i ts)) = None"
    by (simp add: videoComponent_def)
  have c: "audioComponent (Some (RealtimeInputMessage i cs)) = Inr None"
    if "\<forall>c \<in> set cs. mimeType c \<noteq> ''audio/pcm;rate=16000'' \<or> data c = []"
  proof -
    from that have "filter (\<lambda>c. mimeType c = ''audio/pcm;rate=16000'' \<and> data c \<noteq> []) cs = []"
      by (auto simp: filter_empty_conv)
    then show ?thesis by (simp add: audioComponent_def)
  qed
  have d: "videoComponent (Some (RealtimeInputMessage i cs)) = None"
    if "\<forall>c \<in> set cs. mimeType c \<noteq> ''image/jpeg'' \<or> data c = []"
  proof -
    from that have "filter (\<lambda>c. mimeType c = ''image/jpeg'' \<and> data c \<noteq> []) cs = []"
      by (auto simp: filter_empty_conv)
    then show ?thesis by (simp add: videoComponent_def)
  qed
  have e: "audioComponent (Some (ServerContentMessage i (ModelTurn ps))) = Inr None"
    if "\<forall>p \<in> set ps. \<forall>b. inlineData p = Some b \<longrightarrow>
         mimeType b \<noteq> ''audio/pcm;rate=24000'' \<or> data b = []"
  proof -
    from that have "filter is_server_audio ps = []"
      by (auto simp: filter_empty_conv is_server_audio_def split: option.splits)
    then show ?thesis by (simp add: audioComponent_def)
  qed
  have f: "audioComponent (Some (ServerContentMessage i sc)) = Inr None" if "\<not> hasModelTurn sc"
    using that by (simp add: audioComponent_def)
  have g: "videoComponent (Some (ServerContentMessage i sc)) = None"
    by (simp add: videoComponent_def)
  from a b c d e f g show ?thesis by blast
qed

theorem no_artifact_cases_witness:
  "audioComponent (Some (RealtimeInputMessage ''r1'' [])) = Inr None \<and>
   videoComponent (Some (RealtimeInputMessage ''r1'' [])) = None \<and>
   audioComponent (Some (RealtimeInputMessage ''r2''
      [GenerativeContentBlob ''audio/pcm;rate=16000'' '''',
       GenerativeContentBlob ''audio/ogg'' ''AAAA''])) = Inr None \<and>
   videoComponent (Some (RealtimeInputMessage ''r2''
      [GenerativeContentBlob ''image/jpeg'' '''',
       GenerativeContentBlob ''image/png'' ''AAAA''])) = None \<and>
   audioComponent (Some (ServerContentMessage ''b1''
      (ModelTurn [Part (Some ''hi'') None,
                  Part None (Some (GenerativeContentBlob ''audio/pcm;rate=24000'' '''')),
                  Part None (Some (GenerativeContentBlob ''audio/ogg'' ''AAAA''))]))) = Inr None \<and>
   audioComponent (Some (ServerContentMessage ''b2'' TurnComplete)) = Inr None"
  using no_artifact_cases [of "''r1''" "[]" "[]" "[]" TurnComplete]
    no_artifact_cases [of "''r2''" "[]"
      "[GenerativeContentBlob ''audio/pcm;rate=16000'' '''', GenerativeContentBlob ''audio/ogg'' ''AAAA'']"
      "[]" TurnComplete]
    no_artifact_cases [of "''r2''" "[]"
      "[GenerativeContentBlob ''image/jpeg'' '''', GenerativeContentBlob ''image/png'' ''AAAA'']"
      "[]" TurnComplete]
    no_artifact_cases [of "''b1''" "[]" "[]"
      "[Part (Some ''hi'') None,
        Part None (Some (GenerativeContentBlob ''audio/pcm;rate=24000'' '''')),
        Part None (Some (GenerativeContentBlob ''audio/ogg'' ''AAAA''))]" TurnComplete]
    no_artifact_cases [of "''b2''" "[]" "[]" "[]" TurnComplete]
  by simp

text \<open>
  Claim C10. On the null message the three classifiers answer false, and the text, the audio
  and the video derived from it are null; nothing is raised.
\<close>

theorem null_message:
  "isClientMessage None = False \<and> isRealtimeInputMessage None = False \<and>
   isServerMessage None = False \<and>
   textComponent None = None \<and> extractText None = None \<and>
   audioComponent None = Inr None \<and> videoComponent None = None"
  by (simp add: textComponent_def extractText_def audioComponent_def videoComponent_def)

section \<open>Properties of the video player\<close>

lemma poster_tick [simp]: "poster (tick k s) = poster s"
  by (simp add: tick_def)

lemma poster_ticks: "poster (run (replicate n (Tick k)) s) = poster s"
  by (induction n arbitrary: s) (simp_all add: run_def)

lemma run_Cons: "run (e # evs) s = run evs (step s e)"
  by (simp add: run_def)

lemma replicate_unfold:
  "replicate 1 x = [x]" "replicate 2 x = [x, x]" "replicate 3 x = [x, x, x]"
  "replicate 4 x = [x, x, x, x]" "replicate 5 x = [x, x, x, x, x]"
  "replicate 6 x = [x, x, x, x, x, x]"
  by (simp_all add: eval_nat_numeral)

lemma player_inv_mounted: "player_inv mounted"
  by (simp add: player_inv_def mounted_def)

lemma player_inv_useEffect: "player_inv s \<Longrightarrow> player_inv (useEffect imgs iv fr s)"
  unfolding player_inv_def useEffect_def
  by (auto simp: nth_append live_def)

lemma player_inv_tick: "player_inv s \<Longrightarrow> player_inv (tick k s)"
  unfolding player_inv_def tick_def tick_pipeline_def
  by (auto simp: nth_list_update live_def Let_def)

lemma player_inv_ondataavailable: "player_inv s \<Longrightarrow> player_inv (ondataavailable k n s)"
  unfolding player_inv_def ondataavailable_def
  by (auto simp: nth_list_update live_def)

lemma player_inv_onstop: "player_inv s \<Longrightarrow> player_inv (onstop k s)"
proof (cases "k < length (pipelines s) \<and> recorder (pipelines s ! k) = Stopping")
  case False
  assume "player_inv s"
  with False show ?thesis by (auto simp: onstop_def)
next
  case True
  assume i: "player_inv s"
  from True i have ref: "recorderRef s = Some k" and nt: "\<not> timer (pipelines s ! k)"
    by (auto simp: player_inv_def live_def)
  have dead: "\<not> live (pipelines s ! j)" if "j < length (pipelines s)" and "j \<noteq> k" for j
    using i ref that by (auto simp: player_inv_def)
  have rec: "timer (pipelines s ! j) \<longrightarrow> recorder (pipelines s ! j) = Recording"
    if "j < length (pipelines s)" for j
    using i that by (simp add: player_inv_def)
  show ?thesis
    unfolding player_inv_def
  proof (intro allI impI)
    fix j assume j: "j < length (pipelines (onstop k s))"
    then have j': "j < length (pipelines s)" using True by (simp add: onstop_def)
    show "(live (pipelines (onstop k s) ! j) \<longrightarrow> recorderRef (onstop k s) = Some j) \<and>
          (timer (pipelines (onstop k s) ! j) \<longrightarrow> recorder (pipelines (onstop k s) ! j) = Recording)"
    proof (cases "j = k")
      case True
      with \<open>k < length (pipelines s) \<and> recorder (pipelines s ! k) = Stopping\<close> nt
      show ?thesis by (simp add: onstop_def live_def)
    next
      case False
      with True j' dead [of j] rec [of j] show ?thesis
        by (simp add: onstop_def live_def)
    qed
  qed
qed

lemma player_inv_step: "player_inv s \<Longrightarrow> player_inv (step s e)"
  by (cases e) (simp_all add: player_inv_useEffect player_inv_tick player_inv_ondataavailable player_inv_onstop)

lemma player_inv_run: "player_inv s \<Longrightarrow> player_inv (run evs s)"
  by (induction evs arbitrary: s) (simp_all add: run_def player_inv_step)

lemma player_inv_live_le_1: "player_inv s \<Longrightarrow> length (filter live (pipelines s)) \<le> 1"
proof -
  assume i: "player_inv s"
  have sub: "{k. k < length (pipelines s) \<and> live (pipelines s ! k)}
        \<subseteq> (case recorderRef s of None \<Rightarrow> {} | Some k \<Rightarrow> {k})"
    using i by (auto simp: player_inv_def split: option.splits)
  have "card {k. k < length (pipelines s) \<and> live (pipelines s ! k)}
        \<le> card (case recorderRef s of None \<Rightarrow> {} | Some k \<Rightarrow> {k})"
    by (rule card_mono[OF _ sub]) (simp split: option.splits)
  also have "\<dots> \<le> 1" by (simp split: option.splits)
  finally show ?thesis by (simp add: length_filter_conv_card)
qed

lemma player_inv_live_guard:
  "player_inv s \<Longrightarrow> p \<in> set (pipelines s) \<Longrightarrow> live p \<Longrightarrow> recorderRef s \<noteq> None"
  by (auto simp: player_inv_def in_set_conv_nth)

lemma view_inv_empty: "view_inv empty_view"
  by (simp add: view_inv_def empty_view_def)

lemma list_all_update:
  "list_all P xs \<Longrightarrow> P x \<Longrightarrow> list_all P (xs[i := x])"
  unfolding list_all_iff using set_update_subset_insert [of xs i x] by auto

lemma view_inv_render: "view_inv v \<Longrightarrow> view_inv (render m v)"
proof -
  assume i: "view_inv v"
  show ?thesis
  proof (cases "videoComponent m")
    case None
    with i show ?thesis by (simp add: render_def view_inv_def)
  next
    case (Some b)
    show ?thesis
    proof (cases "mounted_player v")
      case None
      with i Some show ?thesis
        by (simp add: render_def view_inv_def player_inv_useEffect player_inv_mounted)
    next
      case (Some j)
      from i Some have j: "j < length (players v)" and all: "list_all player_inv (players v)"
        by (simp_all add: view_inv_def)
      from j all have "player_inv (players v ! j)" by (simp add: list_all_length)
      then have "list_all player_inv
          ((players v)[j := useEffect (vb_images b) 2000 10 (players v ! j)])"
        using all by (simp add: list_all_update player_inv_useEffect)
      with j Some \<open>videoComponent m = Some b\<close> show ?thesis
        by (simp add: render_def view_inv_def)
    qed
  qed
qed

lemma view_inv_player: "view_inv v \<Longrightarrow> view_inv (view_step v (Player j e))"
proof (cases "j < length (players v)")
  case False
  assume "view_inv v"
  with False show ?thesis by (cases e) simp_all
next
  case True
  assume i: "view_inv v"
  then have all: "list_all player_inv (players v)" by (simp add: view_inv_def)
  with True have "player_inv (players v ! j)" by (simp add: list_all_length)
  then have "list_all player_inv ((players v)[j := step (players v ! j) e])"
    using all by (simp add: list_all_update player_inv_step)
  with i True show ?thesis
    by (cases e) (auto simp: view_inv_def split: option.splits)
qed

lemma view_inv_step: "view_inv v \<Longrightarrow> view_inv (view_step v e)"
  by (cases e) (simp_all add: view_inv_render view_inv_player del: view_step.simps(2))

lemma view_inv_run: "view_inv v \<Longrightarrow> view_inv (view_run evs v)"
  by (induction evs arbitrary: v) (simp_all add: view_run_def view_inv_step del: view_step.simps)

theorem single_pipeline_per_id_counterexample:
  "length (live_pipelines (view_run
      [Render (Some (RealtimeInputMessage ''r1'' [GenerativeContentBlob ''image/jpeg'' ''AA==''])),
       Render (Some (RealtimeInputMessage ''r1'' [GenerativeContentBlob ''audio/pcm;rate=16000'' ''AA==''])),
       Render (Some (RealtimeInputMessage ''r1''
         [GenerativeContentBlob ''image/jpeg'' ''AA=='', GenerativeContentBlob ''image/jpeg'' ''AQ=='']))]
      empty_view)) = 2 \<and>
   map (\<lambda>p. map timer (pipelines p)) (players (view_run
      [Render (Some (RealtimeInputMessage ''r1'' [GenerativeContentBlob ''image/jpeg'' ''AA==''])),
       Render (Some (RealtimeInputMessage ''r1'' [GenerativeContentBlob ''audio/pcm;rate=16000'' ''AA==''])),
       Render (Some (RealtimeInputMessage ''r1''
         [GenerativeContentBlob ''image/jpeg'' ''AA=='', GenerativeContentBlob ''image/jpeg'' ''AQ=='']))]
      empty_view)) = [[True], [True]]"
  by (simp add: view_run_def render_def videoComponent_def empty_view_def useEffect_def
      mounted_def live_pipelines_def live_def)

text \<open>
  Claim C8, as the page has it. Every player that a message has had holds at most one
  pipeline with a timer or an unfinished recorder, in every state the bubble reaches; and
  while the mounted player holds one, rendering a snapshot with frames, the same or others,
  changes nothing: no second recorder is created and no second timer is started in that
  player until the stop handler of the running recorder has run.
\<close>

theorem single_active_pipeline:
  "(\<forall>p \<in> set (players (view_run evs empty_view)). length (filter live (pipelines p)) \<le> 1) \<and>
   (\<forall>i. mounted_player (view_run evs empty_view) = Some i \<and>
        (\<exists>q \<in> set (pipelines (players (view_run evs empty_view) ! i)). live q) \<and>
        videoComponent m \<noteq> None \<longrightarrow>
        view_step (view_run evs empty_view) (Render m) = view_run evs empty_view)"
proof -
  let ?V = "view_run evs empty_view"
  have inv: "view_inv ?V" by (simp add: view_inv_run view_inv_empty)
  then have all: "list_all player_inv (players ?V)" by (simp add: view_inv_def)
  have one: "\<forall>p \<in> set (players ?V). length (filter live (pipelines p)) \<le> 1"
    using all unfolding list_all_iff by (blast intro: player_inv_live_le_1)
  have same: "view_step ?V (Render m) = ?V"
    if m: "mounted_player ?V = Some i" and l: "\<exists>q \<in> set (pipelines (players ?V ! i)). live q"
      and b: "videoComponent m \<noteq> None" for i
  proof -
    from inv m have i: "i < length (players ?V)" by (simp add: view_inv_def)
    with all have pi: "player_inv (players ?V ! i)" by (simp add: list_all_length)
    from l player_inv_live_guard [OF pi] have "recorderRef (players ?V ! i) \<noteq> None" by blast
    then have "useEffect imgs 2000 10 (players ?V ! i) = players ?V ! i" for imgs
      by (auto simp: useEffect_def)
    with m b show ?thesis by (auto simp: render_def)
  qed
  from one same show ?thesis by blast
qed

theorem single_active_pipeline_witness:
  "mounted_player (view_run
      [Render (Some (RealtimeInputMessage ''r1'' [GenerativeContentBlob ''image/jpeg'' ''AA==''])),
       Player 0 (Tick 0)] empty_view) = Some 0 \<and>
   pipelines (players (view_run
      [Render (Some (RealtimeInputMessage ''r1'' [GenerativeContentBlob ''image/jpeg'' ''AA==''])),
       Player 0 (Tick 0)] empty_view) ! 0)
     = [\<lparr>images = [''data:image/jpeg;base64, AA==''], interval = 2000, frameRate = 10,
         recorder = Recording, chunks = [], currentImageIndex = 1,
         srcs = [Some ''data:image/jpeg;base64, AA==''], timer = True\<rparr>] \<and>
   live \<lparr>images = [''data:image/jpeg;base64, AA==''], interval = 2000, frameRate = 10,
         recorder = Recording, chunks = [], currentImageIndex = 1,
         srcs = [Some ''data:image/jpeg;base64, AA==''], timer = True\<rparr> \<and>
   videoComponent (Some (RealtimeInputMessage ''r1''
      [GenerativeContentBlob ''image/jpeg'' ''AA=='', GenerativeContentBlob ''image/jpeg'' ''AQ==''])) \<noteq> None \<and>
   view_step (view_run
      [Render (Some (RealtimeInputMessage ''r1'' [GenerativeContentBlob ''image/jpeg'' ''AA==''])),
       Player 0 (Tick 0)] empty_view)
     (Render (Some (RealtimeInputMessage ''r1''
      [GenerativeContentBlob ''image/jpeg'' ''AA=='', GenerativeContentBlob ''image/jpeg'' ''AQ==''])))
     = view_run
      [Render (Some (RealtimeInputMessage ''r1'' [GenerativeContentBlob ''image/jpeg'' ''AA==''])),
       Player 0 (Tick 0)] empty_view \<and>
   length (filter live (pipelines (players (view_run
      [Render (Some (RealtimeInputMessage ''r1'' [GenerativeContentBlob ''image/jpeg'' ''AA==''])),
       Player 0 (Tick 0)] empty_view) ! 0))) \<le> 1"
proof -
  let ?evs = "[Render (Some (RealtimeInputMessage ''r1'' [GenerativeContentBlob ''image/jpeg'' ''AA==''])),
       Player 0 (Tick 0)]"
  let ?m = "Some (RealtimeInputMessage ''r1''
      [GenerativeContentBlob ''image/jpeg'' ''AA=='', GenerativeContentBlob ''image/jpeg'' ''AQ==''])"
  have V: "view_run ?evs empty_view =
     \<lparr>players = [\<lparr>canvasRef = True, recorderRef = Some 0, video = None,
         poster = Some ''data:image/jpeg;base64, AA=='',
         pipelines = [\<lparr>images = [''data:image/jpeg;base64, AA==''], interval = 2000,
           frameRate = 10, recorder = Recording, chunks = [], currentImageIndex = 1,
           srcs = [Some ''data:image/jpeg;base64, AA==''], timer = True\<rparr>]\<rparr>],
       mounted_player = Some 0\<rparr>"
    by (simp add: view_run_def render_def videoComponent_def empty_view_def useEffect_def
        mounted_def tick_def tick_pipeline_def image_at_def)
  have vc: "videoComponent ?m \<noteq> None"
    by (simp add: videoComponent_def)
  have l: "live \<lparr>images = [''data:image/jpeg;base64, AA==''], interval = 2000, frameRate = 10,
         recorder = Recording, chunks = [], currentImageIndex = 1,
         srcs = [Some ''data:image/jpeg;base64, AA==''], timer = True\<rparr>"
    by (simp add: live_def)
  from single_active_pipeline [of ?evs ?m] vc l show ?thesis
    unfolding V by simp
qed

theorem video_termination_counterexample:
  "phase (after_ticks [''data:image/jpeg;base64, AA=='', ''data:image/jpeg;base64, AQ=='',
                       ''data:image/jpeg;base64, Ag=='', ''data:image/jpeg;base64, Aw==''] 2000 10 4)
     = Draining \<and>
   recorder (pipelines (after_ticks [''data:image/jpeg;base64, AA=='', ''data:image/jpeg;base64, AQ=='',
                       ''data:image/jpeg;base64, Ag=='', ''data:image/jpeg;base64, Aw==''] 2000 10 4) ! 0)
     = Recording \<and>
   timer (pipelines (after_ticks [''data:image/jpeg;base64, AA=='', ''data:image/jpeg;base64, AQ=='',
                       ''data:image/jpeg;base64, Ag=='', ''data:image/jpeg;base64, Aw==''] 2000 10 4) ! 0)"
  by (simp add: after_ticks_def run_def useEffect_def tick_def tick_pipeline_def mounted_def
      image_at_def phase_def replicate_unfold)

text \<open>
  Claim C7, as the page has it. With four frames, a frame rate of 10 and an interval of 2000
  the player is idle before the effect runs and encoding after it; the first four ticks hand
  the four frames to the image in order, and after the fourth the recorder still records and
  the timer still runs (draining); the fifth tick stops the recorder and clears the timer
  (finalizing), so that a sixth tick never happens; the recorder's stop handler then
  publishes the clip (complete). The poster is the first frame from the effect run on, at
  every tick and after completion.
\<close>

theorem video_pipeline_four_frames:
  "phase mounted = Idle \<and>
   map (\<lambda>n. phase (after_ticks [f1, f2, f3, f4] 2000 10 n)) [0, 1, 2, 3, 4, 5]
     = [Encoding, Encoding, Encoding, Encoding, Draining, Finalizing] \<and>
   recorder (pipelines (after_ticks [f1, f2, f3, f4] 2000 10 4) ! 0) = Recording \<and>
   timer (pipelines (after_ticks [f1, f2, f3, f4] 2000 10 4) ! 0) \<and>
   srcs (pipelines (after_ticks [f1, f2, f3, f4] 2000 10 4) ! 0)
     = [Some f1, Some f2, Some f3, Some f4] \<and>
   recorder (pipelines (after_ticks [f1, f2, f3, f4] 2000 10 5) ! 0) = Stopping \<and>
   timer (pipelines (after_ticks [f1, f2, f3, f4] 2000 10 5) ! 0) = False \<and>
   video (after_ticks [f1, f2, f3, f4] 2000 10 5) = None \<and>
   after_ticks [f1, f2, f3, f4] 2000 10 6 = after_ticks [f1, f2, f3, f4] 2000 10 5 \<and>
   phase (run [DataAvailable 0 n, OnStop 0] (after_ticks [f1, f2, f3, f4] 2000 10 5))
     = Complete \<and>
   video (run [DataAvailable 0 n, OnStop 0] (after_ticks [f1, f2, f3, f4] 2000 10 5))
     = Some (if n > 0 then [n] else []) \<and>
   poster (run [DataAvailable 0 n, OnStop 0] (after_ticks [f1, f2, f3, f4] 2000 10 5))
     = Some f1 \<and>
   (\<forall>k. poster (after_ticks [f1, f2, f3, f4] 2000 10 k) = Some f1)"
proof -
  have p: "\<forall>k. poster (after_ticks [f1, f2, f3, f4] 2000 10 k) = Some f1"
    by (simp add: after_ticks_def run_Cons poster_ticks useEffect_def mounted_def)
  have s4: "after_ticks [f1, f2, f3, f4] 2000 10 4 =
     \<lparr>canvasRef = True, recorderRef = Some 0, video = None, poster = Some f1,
      pipelines = [\<lparr>images = [f1, f2, f3, f4], interval = 2000, frameRate = 10,
         recorder = Recording, chunks = [], currentImageIndex = 4,
         srcs = [Some f1, Some f2, Some f3, Some f4], timer = True\<rparr>]\<rparr>"
    by (simp add: after_ticks_def run_def useEffect_def tick_def tick_pipeline_def mounted_def
        image_at_def replicate_unfold)
  have s5: "after_ticks [f1, f2, f3, f4] 2000 10 5 =
     \<lparr>canvasRef = True, recorderRef = Some 0, video = None, poster = Some f1,
      pipelines = [\<lparr>images = [f1, f2, f3, f4], interval = 2000, frameRate = 10,
         recorder = Stopping, chunks = [], currentImageIndex = 5,
         srcs = [Some f1, Some f2, Some f3, Some f4, None], timer = False\<rparr>]\<rparr>"
    by (simp add: after_ticks_def run_def useEffect_def tick_def tick_pipeline_def mounted_def
        image_at_def replicate_unfold)
  have s6: "after_ticks [f1, f2, f3, f4] 2000 10 6 = after_ticks [f1, f2, f3, f4] 2000 10 5"
    unfolding s5
    by (simp add: after_ticks_def run_def useEffect_def tick_def tick_pipeline_def mounted_def
        image_at_def replicate_unfold)
  have ph: "map (\<lambda>n. phase (after_ticks [f1, f2, f3, f4] 2000 10 n)) [0, 1, 2, 3, 4, 5]
     = [Encoding, Encoding, Encoding, Encoding, Draining, Finalizing]"
    by (simp add: after_ticks_def run_def useEffect_def tick_def tick_pipeline_def mounted_def
        image_at_def phase_def replicate_unfold)
  have idle: "phase mounted = Idle"
    by (simp add: phase_def mounted_def)
  have fin: "phase (run [DataAvailable 0 n, OnStop 0] (after_ticks [f1, f2, f3, f4] 2000 10 5))
      = Complete \<and>
     video (run [DataAvailable 0 n, OnStop 0] (after_ticks [f1, f2, f3, f4] 2000 10 5))
      = Some (if n > 0 then [n] else []) \<and>
     poster (run [DataAvailable 0 n, OnStop 0] (after_ticks [f1, f2, f3, f4] 2000 10 5))
      = Some f1"
    unfolding s5 by (simp add: run_def ondataavailable_def onstop_def phase_def)
  from p ph idle fin s6 show ?thesis
    by (simp add: s4 s5)
qed

end
